theory Spec2Isabelle
  imports Main "HOL-Library.Sublist" "HOL-Library.AList"
begin

section \<open>The CADC client of astroquery (\<^verbatim>\<open>astroquery/cadc/core.py\<close>)\<close>

text \<open>
  The module builds ADQL for a cone search, resolves service URLs through the CADC
  registry and a capabilities document, and maps query results to data URLs through
  the DataLink service. The embedding below follows the source function by function.
  What the module calls but does not define (the HTTP transport, the XML and VOTable
  parsers, the coordinate parser, \<^verbatim>\<open>urlencode\<close>) is a field of the record
  \<open>env\<close>; every exception is a value of the type \<open>error\<close> in the left summand of
  the result.
\<close>

subsection \<open>Exceptions and Python text\<close>

text \<open>
  \<open>UrllibHTTPError\<close> is \<^verbatim>\<open>urllib.error.HTTPError\<close> (its text and its url), the class
  \<^verbatim>\<open>get_images\<close> catches; \<open>RequestsHTTPError\<close> is
  \<^verbatim>\<open>requests.exceptions.HTTPError\<close>, the class \<^verbatim>\<open>get_access_url\<close> names.
  \<open>OtherError\<close> stands for any other exception of a collaborator.
\<close>

datatype error =
    UrllibHTTPError string string
  | RequestsHTTPError string
  | AttributeError string
  | RuntimeError string
  | ValueError
  | UnicodeDecodeError
  | OtherError string

text \<open>Truth value of an optional string argument: \<^verbatim>\<open>None\<close> and \<^verbatim>\<open>''\<close> are false.\<close>

definition truthy :: "string option \<Rightarrow> bool" where
  "truthy s = (case s of None \<Rightarrow> False | Some v \<Rightarrow> v \<noteq> [])"

text \<open>
  \<^verbatim>\<open>bytes.decode('ascii')\<close>: a byte above 127 raises. A \<open>char\<close> of HOL is a byte.
\<close>

definition is_ascii :: "string \<Rightarrow> bool" where
  "is_ascii s = list_all (\<lambda>c. (of_char c :: nat) < 128) s"

definition decode_ascii :: "string \<Rightarrow> error + string" where
  "decode_ascii s = (if is_ascii s then Inr s else Inl UnicodeDecodeError)"

text \<open>
  \<^verbatim>\<open>str.splitlines\<close>, \<^verbatim>\<open>str.split('=')\<close> and \<^verbatim>\<open>str.strip\<close>, for text whose
  code points are below 256. The line boundaries of Python in that range are LF, CR,
  CR LF, VT, FF, FS, GS, RS and NEL; the white space is TAB to CR, FS to US, the space,
  NEL and the no-break space.
\<close>

definition is_linebreak :: "char \<Rightarrow> bool" where
  "is_linebreak c = ((of_char c :: nat) \<in> {10, 11, 12, 13, 28, 29, 30, 133})"

fun splitlines_from :: "string \<Rightarrow> string \<Rightarrow> string list" where
  "splitlines_from cur [] = (if cur = [] then [] else [rev cur])"
| "splitlines_from cur [c] = (if is_linebreak c then [rev cur] else [rev (c # cur)])"
| "splitlines_from cur (c # d # cs) =
     (if (of_char c :: nat) = 13 \<and> (of_char d :: nat) = 10
        then rev cur # splitlines_from [] cs
      else if is_linebreak c then rev cur # splitlines_from [] (d # cs)
      else splitlines_from (c # cur) (d # cs))"

definition splitlines :: "string \<Rightarrow> string list" where
  "splitlines text = splitlines_from [] text"

fun split_on :: "char \<Rightarrow> string \<Rightarrow> string list" where
  "split_on sep [] = [[]]"
| "split_on sep (c # cs) =
     (if c = sep then [] # split_on sep cs
      else (case split_on sep cs of [] \<Rightarrow> [[c]] | p # ps \<Rightarrow> (c # p) # ps))"

definition is_space :: "char \<Rightarrow> bool" where
  "is_space c = ((of_char c :: nat) \<in> {9, 10, 11, 12, 13, 28, 29, 30, 31, 32, 133, 160})"

definition strip :: "string \<Rightarrow> string" where
  "strip s = rev (dropWhile is_space (rev (dropWhile is_space s)))"

subsection \<open>Data\<close>

text \<open>
  The coordinates after \<^verbatim>\<open>commons.parse_coordinates(...).fk5\<close>: the two fields are the
  text that \<^verbatim>\<open>str.format\<close> gives for \<^verbatim>\<open>ra.degree\<close> and \<^verbatim>\<open>dec.degree\<close>. A radius
  is likewise passed as the text \<^verbatim>\<open>format\<close> gives for it (the source accepts a number,
  a string or a quantity and embeds it unchanged).
\<close>

record fk5 =
  ra_degree :: string
  dec_degree :: string

text \<open>
  The payload dictionary: \<open>format_value\<close> is the entry \<^verbatim>\<open>{format: 'VOTable'}\<close>,
  \<open>query\<close> the entry \<^verbatim>\<open>payload['query']\<close>.
\<close>

record payload =
  format_value :: string
  query :: string

text \<open>
  A capabilities document as BeautifulSoup presents it to \<^verbatim>\<open>get_access_url\<close>. Of an
  \<^verbatim>\<open>interface\<close> element the code reads \<^verbatim>\<open>i.securitymethod\<close> (the first such
  descendant: \<open>None\<close> when there is none, \<open>Some None\<close> when it has no
  \<^verbatim>\<open>standardid\<close> attribute) and \<^verbatim>\<open>i.accessurl.text\<close>. Of a \<^verbatim>\<open>capability\<close>
  element it reads the \<^verbatim>\<open>standardid\<close> attribute and \<^verbatim>\<open>find_all('interface')\<close>.
\<close>

record interface =
  securitymethod :: "string option option"
  accessurl :: "string option"

record capability =
  standardid :: "string option"
  interfaces :: "interface list"

text \<open>
  A row of a DataLink links table: the byte strings \<^verbatim>\<open>semantics\<close> and
  \<^verbatim>\<open>access_url\<close>, and the name and value of each input parameter of a service
  descriptor.
\<close>

record link =
  semantics :: string
  access_url :: string
  input_params :: "(string \<times> string) list"

text \<open>
  A query result: the columns of a table by name, all of one length. \<^verbatim>\<open>len\<close> of a
  table is its number of rows; a caller may also pass \<^verbatim>\<open>None\<close>.
\<close>

type_synonym table = "(string \<times> string list) list"

definition table_len :: "table \<Rightarrow> nat" where
  "table_len t = (case t of [] \<Rightarrow> 0 | (name, col) # rest \<Rightarrow> length col)"

definition is_empty_result :: "table option \<Rightarrow> bool" where
  "is_empty_result query_result =
     (case query_result of None \<Rightarrow> True | Some t \<Rightarrow> table_len t = 0)"

definition column :: "table \<Rightarrow> string \<Rightarrow> string list option" where
  "column t name = map_of t name"

text \<open>
  The network requests the module issues, and the state it keeps between calls: the
  function attribute \<^verbatim>\<open>get_access_url.caps\<close>, the instance attribute
  \<^verbatim>\<open>_data_link_url\<close>, the requests issued so far (oldest first), and the debug
  messages of \<^verbatim>\<open>get_access_url\<close>, each as the text before the exception and the
  exception whose \<^verbatim>\<open>str\<close> follows it.
\<close>

datatype request =
    RegistryGet
  | CapabilitiesGet string
  | DatalinkGet string "string list"

record state =
  caps :: "(string \<times> string) list"
  data_link_url_attr :: "string option"
  requests :: "request list"
  debug_log :: "(string \<times> error) list"

text \<open>
  The collaborators. \<open>registry_get\<close> is \<^verbatim>\<open>requests.get(conf.CADC_REGISTRY_URL)\<close>
  followed by \<^verbatim>\<open>raise_for_status\<close>, giving the response text;
  \<open>capabilities_get\<close> the same for a capabilities URL; \<open>soup\<close> the
  \<^verbatim>\<open>capability\<close> elements BeautifulSoup finds in a text; \<open>datalink_get\<close> the links
  table the DataLink service answers for a list of publisher identifiers.
\<close>

record 'c env =
  CADCDATALINK_SERVICE_URI :: string
  registry_get :: "error + string"
  capabilities_get :: "string \<Rightarrow> error + string"
  soup :: "string \<Rightarrow> capability list"
  datalink_get :: "string \<Rightarrow> string list \<Rightarrow> error + link list"
  parse_coordinates :: "'c \<Rightarrow> error + fk5"
  urlencode :: "(string \<times> string) list \<Rightarrow> string"

subsection \<open>Query builder: \<^verbatim>\<open>CadcClass._args_to_payload\<close>\<close>

definition region_query :: "fk5 \<Rightarrow> string \<Rightarrow> string" where
  "region_query coordinates radius =
     ''SELECT * from caom2.Observation o join caom2.Plane p '' @
     ''ON o.obsID=p.obsID '' @
     ''WHERE INTERSECTS( '' @
     ''CIRCLE('ICRS', '' @ ra_degree coordinates @ '', '' @ dec_degree coordinates @
     '', '' @ radius @ ''), position_bounds) = 1 AND '' @
     ''(quality_flag IS NULL OR quality_flag != 'junk')''"

definition collection_filter :: "string \<Rightarrow> string" where
  "collection_filter c = '' AND collection='' @ [CHR 0x27] @ c @ [CHR 0x27]"

definition args_to_payload ::
  "'c env \<Rightarrow> 'c \<Rightarrow> string \<Rightarrow> string option \<Rightarrow> error + payload" where
  "args_to_payload env coordinates radius collection =
     (case parse_coordinates env coordinates of
        Inl e \<Rightarrow> Inl e
      | Inr c \<Rightarrow>
          (let p = \<lparr>format_value = ''VOTable'', query = region_query c radius\<rparr>
           in case collection of
                None \<Rightarrow> Inr p
              | Some name \<Rightarrow>
                  if name = [] then Inr p
                  else Inr (p\<lparr>query := query p @ collection_filter name\<rparr>)))"

text \<open>The texts a query is searched for: the spatial predicate with its three values,
  the exclusion of junk rows, and the opening of a filter on the collection.\<close>

definition intersects_predicate :: "fk5 \<Rightarrow> string \<Rightarrow> string" where
  "intersects_predicate c radius =
     ''INTERSECTS( CIRCLE('ICRS', '' @ ra_degree c @ '', '' @ dec_degree c @ '', '' @ radius @
     ''), position_bounds) = 1''"

definition junk_exclusion :: string where
  "junk_exclusion = ''(quality_flag IS NULL OR quality_flag != 'junk')''"

definition collection_filter_opening :: string where
  "collection_filter_opening = '' AND collection='' @ [CHR 0x27]"

subsection \<open>Bulk download: the last stage of \<^verbatim>\<open>CadcClass.get_images\<close>\<close>





subsection \<open>Registry cache and capability resolver: \<^verbatim>\<open>get_access_url\<close>\<close>

text \<open>
  The loop over the lines of the registry feed. A line that does not split into exactly
  two parts at \<^verbatim>\<open>=\<close> makes the tuple assignment raise \<^verbatim>\<open>ValueError\<close>; the entries
  stored before it stay in the cache.
\<close>

fun registry_lines ::
  "string list \<Rightarrow> (string \<times> string) list \<Rightarrow> error option \<times> (string \<times> string) list" where
  "registry_lines [] cache = (None, cache)"
| "registry_lines (line # lines) cache =
     (if line \<noteq> [] \<and> \<not> prefix ''#'' line then
        (case split_on (CHR ''='') line of
           [service_id, capabilies_url] \<Rightarrow>
             registry_lines lines (AList.update (strip service_id) (strip capabilies_url) cache)
         | _ \<Rightarrow> (Some ValueError, cache))
      else registry_lines lines cache)"

text \<open>The block guarded by \<^verbatim>\<open>if not get_access_url.caps\<close>.\<close>

definition populate_caps :: "'c env \<Rightarrow> state \<Rightarrow> error option \<times> state" where
  "populate_caps env st =
     (if caps st = [] then
        (let st1 = st\<lparr>requests := requests st @ [RegistryGet]\<rparr> in
         case registry_get env of
           Inl e \<Rightarrow>
             (Some e,
              (case e of
                 RequestsHTTPError msg \<Rightarrow>
                   st1\<lparr>debug_log := debug_log st1 @ [(''ERROR getting the CADC registry: '', e)]\<rparr>
               | _ \<Rightarrow> st1))
         | Inr text \<Rightarrow>
             (case registry_lines (splitlines text) (caps st1) of
                (r, cache) \<Rightarrow> (r, st1\<lparr>caps := cache\<rparr>)))
      else (None, st))"

definition service_uri_of :: "string \<Rightarrow> string" where
  "service_uri_of service =
     (if prefix ''ivo'' service then service else ''ivo://cadc.nrc.ca/'' @ service)"

text \<open>The value of the variable \<^verbatim>\<open>caps_url\<close>: the service itself when it is a URL,
  else the registry's entry for it.\<close>

definition caps_url_of :: "'c env \<Rightarrow> string \<Rightarrow> state \<Rightarrow> (error + string) \<times> state" where
  "caps_url_of env service st =
     (if prefix ''http'' service then (Inr service, st)
      else
        (case populate_caps env st of
           (Some e, st1) \<Rightarrow> (Inl e, st1)
         | (None, st1) \<Rightarrow>
             (case map_of (caps st1) (service_uri_of service) of
                None \<Rightarrow>
                  (Inl (AttributeError (''Cannot find the capabilities of service '' @ service)),
                   st1)
              | Some caps_url \<Rightarrow> (Inr caps_url, st1))))"

text \<open>
  The search of the parsed document. \<^verbatim>\<open>hasattr(i, 'securitymethod')\<close> holds for every
  BeautifulSoup tag (an unknown attribute is a search for a child tag), so the test on
  the security method is reached for every interface.
\<close>

definition no_accessurl :: error where
  "no_accessurl =
     AttributeError (CHR 0x27 # ''NoneType' object has no attribute 'text'' @ [CHR 0x27])"

definition accessurl_text :: "interface \<Rightarrow> error + string" where
  "accessurl_text i =
     (case accessurl i of
        None \<Rightarrow> Inl no_accessurl
      | Some url \<Rightarrow> Inr url)"

definition anonymous_or_cookie :: "interface \<Rightarrow> bool" where
  "anonymous_or_cookie i =
     (case securitymethod i of
        None \<Rightarrow> True
      | Some None \<Rightarrow> True
      | Some (Some sid) \<Rightarrow> sid = ''ivo://ivoa.net/sso#cookie'')"

fun scan_interfaces :: "interface list \<Rightarrow> (error + string) option" where
  "scan_interfaces [] = None"
| "scan_interfaces (i # rest) =
     (if anonymous_or_cookie i then Some (accessurl_text i) else scan_interfaces rest)"

fun scan_capabilities :: "capability list \<Rightarrow> string \<Rightarrow> error + string" where
  "scan_capabilities [] capability =
     Inl (RuntimeError (''ERROR - capabilitiy '' @ capability @
            '' not found or not working with anonymous or cookie access''))"
| "scan_capabilities (cap # rest) capability =
     (if standardid cap = Some capability then
        (case interfaces cap of
           [i] \<Rightarrow> accessurl_text i
         | found \<Rightarrow>
             (case scan_interfaces found of
                Some r \<Rightarrow> r
              | None \<Rightarrow> scan_capabilities rest capability))
      else scan_capabilities rest capability)"

definition capability_lookup ::
  "'c env \<Rightarrow> string \<Rightarrow> string \<Rightarrow> state \<Rightarrow> (error + string) \<times> state" where
  "capability_lookup env caps_url capability st =
     (let st1 = st\<lparr>requests := requests st @ [CapabilitiesGet caps_url]\<rparr> in
      case capabilities_get env caps_url of
        Inl e \<Rightarrow>
          (Inl e,
           st1\<lparr>debug_log := debug_log st1 @ [(''ERROR getting the service capabilities: '', e)]\<rparr>)
      | Inr text \<Rightarrow> (scan_capabilities (soup env text) capability, st1))"

definition get_access_url ::
  "'c env \<Rightarrow> string \<Rightarrow> string option \<Rightarrow> state \<Rightarrow> (error + string) \<times> state" where
  "get_access_url env service capability st =
     (case caps_url_of env service st of
        (Inl e, st1) \<Rightarrow> (Inl e, st1)
      | (Inr caps_url, st1) \<Rightarrow>
          (case capability of
             None \<Rightarrow> (Inr caps_url, st1)
           | Some cid \<Rightarrow>
               if cid = [] then (Inr caps_url, st1)
               else capability_lookup env caps_url cid st1))"

text \<open>A run of calls, whatever each returns or raises.\<close>

fun get_access_url_calls ::
  "('c env \<times> string \<times> string option) list \<Rightarrow> state \<Rightarrow> state" where
  "get_access_url_calls [] st = st"
| "get_access_url_calls ((env, service, capability) # calls) st =
     get_access_url_calls calls (snd (get_access_url env service capability st))"

definition registry_fetches :: "state \<Rightarrow> nat" where
  "registry_fetches st = length (filter (\<lambda>r. r = RegistryGet) (requests st))"

text \<open>The property \<^verbatim>\<open>CadcClass.data_link_url\<close>, resolved on first use.\<close>

definition data_link_url :: "'c env \<Rightarrow> state \<Rightarrow> (error + string) \<times> state" where
  "data_link_url env st =
     (case data_link_url_attr st of
        Some url \<Rightarrow> (Inr url, st)
      | None \<Rightarrow>
          (case get_access_url env (CADCDATALINK_SERVICE_URI env)
                  (Some ''ivo://ivoa.net/std/DataLink#links-1.0'') st of
             (Inl e, st1) \<Rightarrow> (Inl e, st1)
           | (Inr url, st1) \<Rightarrow> (Inr url, st1\<lparr>data_link_url_attr := Some url\<rparr>)))"

subsection \<open>DataLink resolver: \<^verbatim>\<open>CadcClass.get_image_list\<close>\<close>

text \<open>
  The generator \<^verbatim>\<open>chunks\<close>: the slices \<^verbatim>\<open>obj_list[idx:idx + chunk_len]\<close> for
  \<^verbatim>\<open>idx\<close> in \<^verbatim>\<open>range(0, len(obj_list), chunk_len)\<close>. A step of zero makes
  \<^verbatim>\<open>range\<close> raise \<^verbatim>\<open>ValueError\<close>.
\<close>

function chunks_from :: "nat \<Rightarrow> 'a list \<Rightarrow> nat \<Rightarrow> 'a list list" where
  "chunks_from idx obj_list chunk_len =
     (if idx < length obj_list \<and> 0 < chunk_len
      then take chunk_len (drop idx obj_list) # chunks_from (idx + chunk_len) obj_list chunk_len
      else [])"
  by pat_completeness auto
termination
  by (relation "measure (\<lambda>(idx, obj_list, chunk_len). length obj_list - idx)") auto

declare chunks_from.simps [simp del]

definition chunks :: "'a list \<Rightarrow> nat \<Rightarrow> error + 'a list list" where
  "chunks obj_list chunk_len =
     (if chunk_len = 0 then Inl ValueError else Inr (chunks_from 0 obj_list chunk_len))"

definition n_pids :: nat where
  "n_pids = 20"

text \<open>
  The dictionary comprehension over the parameters of a service descriptor, and
  \<^verbatim>\<open>dict.update\<close>. A dictionary is an association list in insertion order.
\<close>

definition accepted_params :: "(string \<times> string) list \<Rightarrow> (string \<times> string) list" where
  "accepted_params service_params =
     foldl (\<lambda>d (name, v). if name = ''ID'' \<or> name = ''RUNID'' then AList.update name v d else d)
       [] service_params"

definition dict_update ::
  "(string \<times> string) list \<Rightarrow> (string \<times> string) list \<Rightarrow> (string \<times> string) list" where
  "dict_update d other = foldl (\<lambda>acc (k, v). AList.update k v acc) d other"

definition bysemantics :: "string \<Rightarrow> link list \<Rightarrow> link list" where
  "bysemantics tag links = filter (\<lambda>r. semantics r = tag) links"

fun cutout_urls ::
  "'c env \<Rightarrow> (string \<times> string) list \<Rightarrow> link list \<Rightarrow> string list \<Rightarrow> error + string list" where
  "cutout_urls env cutout_params [] result = Inr result"
| "cutout_urls env cutout_params (service_def # rest) result =
     (case decode_ascii (access_url service_def) of
        Inl e \<Rightarrow> Inl e
      | Inr url \<Rightarrow>
          if sublist ''/sync'' url then
            cutout_urls env cutout_params rest
              (result @ [url @ ''?'' @
                 urlencode env (dict_update (accepted_params (input_params service_def))
                                  cutout_params)])
          else cutout_urls env cutout_params rest result)"

text \<open>
  The loop over the batches. Each turn reads the property \<^verbatim>\<open>data_link_url\<close> and
  issues one DataLink request, for the identifiers of the batch.
\<close>

fun image_list_loop ::
  "'c env \<Rightarrow> (string \<times> string) list \<Rightarrow> string list list \<Rightarrow> string list \<Rightarrow> state \<Rightarrow>
   (error + string list) \<times> state" where
  "image_list_loop env cutout_params [] result st = (Inr result, st)"
| "image_list_loop env cutout_params (pid_sublist # rest) result st =
     (case data_link_url env st of
        (Inl e, st1) \<Rightarrow> (Inl e, st1)
      | (Inr url, st1) \<Rightarrow>
          (let st2 = st1\<lparr>requests := requests st1 @ [DatalinkGet url pid_sublist]\<rparr> in
           case datalink_get env url pid_sublist of
             Inl e \<Rightarrow> (Inl e, st2)
           | Inr datalink \<Rightarrow>
               (case cutout_urls env cutout_params (bysemantics ''#cutout'' datalink) result of
                  Inl e \<Rightarrow> (Inl e, st2)
                | Inr result' \<Rightarrow> image_list_loop env cutout_params rest result' st2)))"

definition missing_column :: error where
  "missing_column = AttributeError ''caomPublisherID column missing from query_result argument''"

definition get_image_list ::
  "'c env \<Rightarrow> table option \<Rightarrow> 'c \<Rightarrow> string \<Rightarrow> state \<Rightarrow> (error + string list) \<times> state" where
  "get_image_list env query_result coordinates radius st =
     (case query_result of
        None \<Rightarrow> (Inl (AttributeError ''Missing query_result argument''), st)
      | Some t \<Rightarrow>
          if table_len t = 0 then (Inl (AttributeError ''Missing query_result argument''), st)
          else
            (case parse_coordinates env coordinates of
               Inl e \<Rightarrow> (Inl e, st)
             | Inr c \<Rightarrow>
                 (let cutout_params =
                        [(''POS'', ''CIRCLE '' @ ra_degree c @ '' '' @ dec_degree c @ '' '' @ radius)]
                  in case column t ''caomPublisherID'' of
                       None \<Rightarrow> (Inl missing_column, st)
                     | Some publisher_ids \<Rightarrow>
                         (case chunks publisher_ids n_pids of
                            Inl e \<Rightarrow> (Inl e, st)
                          | Inr batches \<Rightarrow> image_list_loop env cutout_params batches [] st))))"

text \<open>The identifier batches of the DataLink requests in a request log, oldest first.\<close>

fun datalink_batches :: "request list \<Rightarrow> string list list" where
  "datalink_batches [] = []"
| "datalink_batches (DatalinkGet url ids # rs) = ids # datalink_batches rs"
| "datalink_batches (r # rs) = datalink_batches rs"

subsection \<open>DataLink resolver: \<^verbatim>\<open>CadcClass.get_data_urls\<close>\<close>

text \<open>The loop over the rows of one response table.\<close>

fun link_urls :: "bool \<Rightarrow> link list \<Rightarrow> string list \<Rightarrow> error + string list" where
  "link_urls include_auxiliaries [] result = Inr result"
| "link_urls include_auxiliaries (row # rows) result =
     (case decode_ascii (semantics row) of
        Inl e \<Rightarrow> Inl e
      | Inr sem \<Rightarrow>
          if sem = ''#this'' then
            (case decode_ascii (access_url row) of
               Inl e \<Rightarrow> Inl e
             | Inr url \<Rightarrow> link_urls include_auxiliaries rows (result @ [url]))
          else if access_url row \<noteq> [] \<and> include_auxiliaries then
            (case decode_ascii (access_url row) of
               Inl e \<Rightarrow> Inl e
             | Inr url \<Rightarrow> link_urls include_auxiliaries rows (result @ [url]))
          else link_urls include_auxiliaries rows result)"

text \<open>The loop over the publisher identifiers: one request for each.\<close>

fun data_urls_loop ::
  "'c env \<Rightarrow> bool \<Rightarrow> string list \<Rightarrow> string list \<Rightarrow> state \<Rightarrow> (error + string list) \<times> state" where
  "data_urls_loop env include_auxiliaries [] result st = (Inr result, st)"
| "data_urls_loop env include_auxiliaries (pid # pids) result st =
     (case data_link_url env st of
        (Inl e, st1) \<Rightarrow> (Inl e, st1)
      | (Inr url, st1) \<Rightarrow>
          (let st2 = st1\<lparr>requests := requests st1 @ [DatalinkGet url [pid]]\<rparr> in
           case datalink_get env url [pid] of
             Inl e \<Rightarrow> (Inl e, st2)
           | Inr tb \<Rightarrow>
               (case link_urls include_auxiliaries tb result of
                  Inl e \<Rightarrow> (Inl e, st2)
                | Inr result' \<Rightarrow> data_urls_loop env include_auxiliaries pids result' st2)))"

definition get_data_urls ::
  "'c env \<Rightarrow> table option \<Rightarrow> bool \<Rightarrow> state \<Rightarrow> (error + string list) \<times> state" where
  "get_data_urls env query_result include_auxiliaries st =
     (case query_result of
        None \<Rightarrow> (Inl (AttributeError ''Missing metadata argument''), st)
      | Some t \<Rightarrow>
          if table_len t = 0 then (Inl (AttributeError ''Missing metadata argument''), st)
          else
            (case column t ''publisherID'' of
               None \<Rightarrow> (Inl missing_column, st)
             | Some publisher_ids \<Rightarrow>
                 data_urls_loop env include_auxiliaries publisher_ids [] st))"


text \<open>The rows of a response table whose URL the loop appends.\<close>

definition contributes :: "bool \<Rightarrow> link \<Rightarrow> bool" where
  "contributes include_auxiliaries row =
     (semantics row = ''#this'' \<or> (access_url row \<noteq> [] \<and> include_auxiliaries))"

text \<open>
  An exception that a collaborator raises, as opposed to one the module raises itself.
\<close>

definition raised_by_collaborator :: "'c env \<Rightarrow> error \<Rightarrow> bool" where
  "raised_by_collaborator env e =
     (registry_get env = Inl e \<or> (\<exists>url. capabilities_get env url = Inl e) \<or>
      (\<exists>url ids. datalink_get env url ids = Inl e) \<or> (\<exists>c. parse_coordinates env c = Inl e))"

subsection \<open>\<^verbatim>\<open>CadcClass.run_query\<close> and \<^verbatim>\<open>CadcClass.get_images\<close>\<close>







subsection \<open>A concrete environment\<close>

text \<open>
  A registry feed with one comment line and one entry, a capabilities document with one
  DataLink capability of one interface, a DataLink service that answers an empty table,
  and a coordinate parser that answers one fixed position. The concrete runs below start
  from it.
\<close>

definition cadc_example :: "string env" where
  "cadc_example =
     \<lparr>CADCDATALINK_SERVICE_URI = ''ivo://cadc.nrc.ca/caom2ops'',
      registry_get = Inr (''# CADC services'' @ [CHR 0x0A] @
        ''ivo://cadc.nrc.ca/caom2ops = https://ws.cadc.example/caom2ops/capabilities'' @ [CHR 0x0A]),
      capabilities_get = (\<lambda>url. Inr url),
      soup = (\<lambda>text.
        [\<lparr>standardid = Some ''ivo://ivoa.net/std/DataLink#links-1.0'',
          interfaces = [\<lparr>securitymethod = Some (Some ''ivo://ivoa.net/sso#tls-with-certificate''),
                         accessurl = Some ''https://ws.cadc.example/caom2ops/datalink''\<rparr>]\<rparr>]),
      datalink_get = (\<lambda>url ids. Inr []),
      parse_coordinates = (\<lambda>text. Inr \<lparr>ra_degree = ''131.28125'', dec_degree = ''54.3''\<rparr>),
      urlencode = (\<lambda>params. concat (map (\<lambda>(k, v). k @ ''='' @ v @ ''&'') params))\<rparr>"

definition initial_state :: state where
  "initial_state = \<lparr>caps = [], data_link_url_attr = None, requests = [], debug_log = []\<rparr>"

text \<open>A registry feed that lists no service, and a registry that answers an HTTP error.\<close>

definition cadc_registry_blank :: "string env" where
  "cadc_registry_blank = cadc_example\<lparr>registry_get := Inr ''# no services listed''\<rparr>"

definition cadc_registry_down :: "string env" where
  "cadc_registry_down =
     cadc_example\<lparr>registry_get := Inl (RequestsHTTPError ''503 Server Error: Service Unavailable'')\<rparr>"

text \<open>A capabilities document whose DataLink capability has two interfaces, one for
  client certificates and one for basic authentication.\<close>

definition cadc_certificate_only :: "string env" where
  "cadc_certificate_only =
     cadc_example\<lparr>soup := (\<lambda>text.
        [\<lparr>standardid = Some ''ivo://ivoa.net/std/DataLink#links-1.0'',
          interfaces =
            [\<lparr>securitymethod = Some (Some ''ivo://ivoa.net/sso#tls-with-certificate''),
              accessurl = Some ''https://ws.cadc.example/caom2ops/datalink''\<rparr>,
             \<lparr>securitymethod = Some (Some ''http://www.w3.org/Protocols/HTTP/1.0/spec.html#BasicAA''),
              accessurl = Some ''https://ws.cadc.example/caom2ops/auth/datalink''\<rparr>]\<rparr>])\<rparr>"

text \<open>
  Two documents with two capability elements for the DataLink identifier. In the first,
  the earlier element has an anonymous interface and one for client certificates, the
  later element a single interface. In the second, each element has a single
  interface, one for client certificates and one for basic authentication.
\<close>

definition cadc_anonymous_first :: "string env" where
  "cadc_anonymous_first =
     cadc_example\<lparr>soup := (\<lambda>text.
        [\<lparr>standardid = Some ''ivo://ivoa.net/std/DataLink#links-1.0'',
          interfaces =
            [\<lparr>securitymethod = None,
              accessurl = Some ''https://ws.cadc.example/caom2ops/anon/datalink''\<rparr>,
             \<lparr>securitymethod = Some (Some ''ivo://ivoa.net/sso#tls-with-certificate''),
              accessurl = Some ''https://ws.cadc.example/caom2ops/cert/datalink''\<rparr>]\<rparr>,
         \<lparr>standardid = Some ''ivo://ivoa.net/std/DataLink#links-1.0'',
          interfaces =
            [\<lparr>securitymethod = Some (Some ''ivo://ivoa.net/sso#tls-with-certificate''),
              accessurl = Some ''https://ws.cadc.example/caom2ops/single/datalink''\<rparr>]\<rparr>])\<rparr>"

definition cadc_two_single_elements :: "string env" where
  "cadc_two_single_elements =
     cadc_example\<lparr>soup := (\<lambda>text.
        [\<lparr>standardid = Some ''ivo://ivoa.net/std/DataLink#links-1.0'',
          interfaces =
            [\<lparr>securitymethod = Some (Some ''ivo://ivoa.net/sso#tls-with-certificate''),
              accessurl = Some ''https://ws.cadc.example/caom2ops/cert/datalink''\<rparr>]\<rparr>,
         \<lparr>standardid = Some ''ivo://ivoa.net/std/DataLink#links-1.0'',
          interfaces =
            [\<lparr>securitymethod = Some (Some ''http://www.w3.org/Protocols/HTTP/1.0/spec.html#BasicAA''),
              accessurl = Some ''https://ws.cadc.example/caom2ops/auth/datalink''\<rparr>]\<rparr>])\<rparr>"

text \<open>A DataLink service that answers one primary row and one preview row.\<close>

definition cadc_two_links :: "string env" where
  "cadc_two_links =
     cadc_example\<lparr>datalink_get := (\<lambda>url ids.
        Inr [\<lparr>semantics = ''#this'', access_url = ''https://ws.cadc.example/data/pub/CFHT/1.fits'',
              input_params = []\<rparr>,
             \<lparr>semantics = ''#preview'', access_url = ''https://ws.cadc.example/data/pub/CFHT/1.jpg'',
              input_params = []\<rparr>])\<rparr>"



text \<open>Forty-five publisher identifiers, \<^verbatim>\<open>p00\<close> to \<^verbatim>\<open>p44\<close>.\<close>

definition example_pids :: "string list" where
  "example_pids =
     map (\<lambda>n. ''ivo://cadc.nrc.ca/CFHT?obs/p'' @ [char_of (48 + n div 10), char_of (48 + n mod 10)])
       [0..<45]"

section \<open>Properties\<close>

subsection \<open>Contiguous pairs in concatenated text\<close>

lemma sublist_pair_append:
  "sublist [a, b] (xs @ ys) \<longleftrightarrow>
     sublist [a, b] xs \<or> sublist [a, b] ys \<or> (xs \<noteq> [] \<and> ys \<noteq> [] \<and> last xs = a \<and> hd ys = b)"
proof -
  have "(\<exists>xs1 xs2. [a, b] = xs1 @ xs2 \<and> suffix xs1 xs \<and> prefix xs2 ys) \<longleftrightarrow>
        (prefix [a, b] ys \<or> suffix [a, b] xs \<or> (suffix [a] xs \<and> prefix [b] ys))"
    (is "?L \<longleftrightarrow> ?R")
  proof
    assume ?L
    then obtain xs1 xs2 where h: "[a, b] = xs1 @ xs2" "suffix xs1 xs" "prefix xs2 ys" by blast
    from h(1) have "xs1 = [] \<and> xs2 = [a, b] \<or> xs1 = [a] \<and> xs2 = [b] \<or> xs1 = [a, b] \<and> xs2 = []"
      by (auto simp: Cons_eq_append_conv)
    with h(2,3) show ?R by auto
  next
    assume ?R
    then consider "prefix [a, b] ys" | "suffix [a, b] xs" | "suffix [a] xs \<and> prefix [b] ys" by blast
    then show ?L
    proof cases
      case 1 then show ?thesis by (intro exI[of _ "[]"] exI[of _ "[a, b]"]) simp
    next
      case 2 then show ?thesis by (intro exI[of _ "[a, b]"] exI[of _ "[]"]) simp
    next
      case 3 then show ?thesis by (intro exI[of _ "[a]"] exI[of _ "[b]"]) simp
    qed
  qed
  moreover have "suffix [a] xs \<longleftrightarrow> xs \<noteq> [] \<and> last xs = a"
    by (cases xs rule: rev_cases) (auto simp: suffix_def)
  moreover have "prefix [b] ys \<longleftrightarrow> ys \<noteq> [] \<and> hd ys = b"
    by (cases ys) auto
  ultimately show ?thesis
    unfolding sublist_append by auto
qed

lemma sublist_pair_absent: "b \<notin> set xs \<Longrightarrow> \<not> sublist [a, b] xs"
  using set_mono_sublist [of "[a, b]" xs] by auto

lemma pair_free_var_step:
  assumes "\<not> sublist [a, b] ys" "ys \<noteq> []" "hd ys \<noteq> b" "b \<notin> set x"
  shows "\<not> sublist [a, b] (x @ ys) \<and> x @ ys \<noteq> [] \<and> hd (x @ ys) \<noteq> b"
proof -
  have "x \<noteq> [] \<Longrightarrow> hd x \<noteq> b" using assms(4) by (cases x) auto
  then show ?thesis
    using assms by (auto simp: sublist_pair_append sublist_pair_absent hd_append)
qed

lemma pair_free_fixed_step:
  assumes "\<not> sublist [a, b] F" "F \<noteq> []" "hd F \<noteq> b"
    and "\<not> sublist [a, b] ys" "ys \<noteq> []" "hd ys \<noteq> b"
  shows "\<not> sublist [a, b] (F @ ys) \<and> F @ ys \<noteq> [] \<and> hd (F @ ys) \<noteq> b"
  using assms by (auto simp: sublist_pair_append hd_append)

lemma region_query_no_eq_quote:
  assumes "CHR 0x27 \<notin> set (ra_degree c)" "CHR 0x27 \<notin> set (dec_degree c)" "CHR 0x27 \<notin> set radius"
  shows "\<not> sublist [CHR ''='', CHR 0x27] (region_query c radius)"
proof -
  define A where "A = ''SELECT * from caom2.Observation o join caom2.Plane p ON o.obsID=p.obsID WHERE INTERSECTS( CIRCLE('ICRS', ''"
  define B where "B = '', ''"
  define D where "D = ''), position_bounds) = 1 AND (quality_flag IS NULL OR quality_flag != 'junk')''"
  have rq: "region_query c radius = A @ ra_degree c @ B @ dec_degree c @ B @ radius @ D"
    by (simp add: region_query_def A_def B_def D_def)
  have PA: "\<not> sublist [CHR ''='', CHR 0x27] A" "A \<noteq> []" "hd A \<noteq> CHR 0x27"
    by (simp_all add: A_def sublist_code(3))
  have PB: "\<not> sublist [CHR ''='', CHR 0x27] B" "B \<noteq> []" "hd B \<noteq> CHR 0x27"
    by (simp_all add: B_def sublist_code(3))
  have PD: "\<not> sublist [CHR ''='', CHR 0x27] D" "D \<noteq> []" "hd D \<noteq> CHR 0x27"
    by (simp_all add: D_def sublist_code(3))
  note s1 = pair_free_var_step [OF PD assms(3)]
  note s2 = pair_free_fixed_step [OF PB s1 [THEN conjunct1] s1 [THEN conjunct2, THEN conjunct1] s1 [THEN conjunct2, THEN conjunct2]]
  note s3 = pair_free_var_step [OF s2 [THEN conjunct1] s2 [THEN conjunct2, THEN conjunct1] s2 [THEN conjunct2, THEN conjunct2] assms(2)]
  note s4 = pair_free_fixed_step [OF PB s3 [THEN conjunct1] s3 [THEN conjunct2, THEN conjunct1] s3 [THEN conjunct2, THEN conjunct2]]
  note s5 = pair_free_var_step [OF s4 [THEN conjunct1] s4 [THEN conjunct2, THEN conjunct1] s4 [THEN conjunct2, THEN conjunct2] assms(1)]
  note s6 = pair_free_fixed_step [OF PA s5 [THEN conjunct1] s5 [THEN conjunct2, THEN conjunct1] s5 [THEN conjunct2, THEN conjunct2]]
  show ?thesis unfolding rq using s6 by blast
qed

subsection \<open>The query builder\<close>

lemma region_query_parts:
  "sublist (intersects_predicate c radius) (region_query c radius)"
  "sublist junk_exclusion (region_query c radius)"
proof -
  define sel where "sel = ''SELECT * from caom2.Observation o join caom2.Plane p ON o.obsID=p.obsID WHERE ''"
  have rq: "region_query c radius = sel @ intersects_predicate c radius @ ('' AND '' @ junk_exclusion)"
    by (simp add: region_query_def intersects_predicate_def junk_exclusion_def sel_def)
  show "sublist (intersects_predicate c radius) (region_query c radius)"
    unfolding rq by (rule sublist_appendI)
  have "region_query c radius = (sel @ intersects_predicate c radius @ '' AND '') @ junk_exclusion"
    unfolding rq by simp
  then show "sublist junk_exclusion (region_query c radius)"
    by (simp only: sublist_append_leftI)
qed

lemma sublist_extend: "sublist xs ys \<Longrightarrow> sublist xs (ys @ zs)"
  by (simp add: sublist_append)

lemma collection_filter_opens: "sublist collection_filter_opening (q @ collection_filter name)"
proof -
  have "q @ collection_filter name = q @ collection_filter_opening @ (name @ [CHR 0x27])"
    by (simp add: collection_filter_def collection_filter_opening_def)
  then show ?thesis by (simp only: sublist_appendI)
qed

lemma region_query_no_opening:
  assumes "CHR 0x27 \<notin> set (ra_degree c @ dec_degree c @ radius)"
  shows "\<not> sublist collection_filter_opening (region_query c radius)"
proof
  assume "sublist collection_filter_opening (region_query c radius)"
  moreover have "sublist [CHR ''='', CHR 0x27] collection_filter_opening"
    by (simp add: collection_filter_opening_def sublist_code(3))
  ultimately have "sublist [CHR ''='', CHR 0x27] (region_query c radius)"
    by (rule sublist_order.order.trans [rotated])
  with region_query_no_eq_quote [of c radius] assms show False by simp
qed

text \<open>
  C1, as amended. Whenever the coordinates parse, \<^verbatim>\<open>_args_to_payload\<close> returns a payload
  whose query contains the \<^verbatim>\<open>INTERSECTS(CIRCLE(...), position_bounds)\<close> predicate with
  the parsed right ascension and declination and the given radius, and contains the
  exclusion of junk quality. With a non-empty collection the query is the region query
  followed by \<^verbatim>\<open> AND collection='<name>'\<close>; with none (or an empty one) it is the
  region query alone. When neither the rendered coordinates nor the rendered radius
  hold a single quote, the query contains the opening of a collection filter if and
  only if a non-empty collection was supplied.
\<close>

theorem args_to_payload_query:
  assumes "parse_coordinates env coordinates = Inr c"
  shows "\<exists>p. args_to_payload env coordinates radius collection = Inr p \<and>
     sublist (intersects_predicate c radius) (query p) \<and>
     sublist junk_exclusion (query p) \<and>
     (\<forall>name. collection = Some name \<and> name \<noteq> [] \<longrightarrow>
        query p = region_query c radius @ collection_filter name) \<and>
     (\<not> truthy collection \<longrightarrow> query p = region_query c radius) \<and>
     (CHR 0x27 \<notin> set (ra_degree c @ dec_degree c @ radius) \<longrightarrow>
        (sublist collection_filter_opening (query p) \<longleftrightarrow> truthy collection))"
proof (cases "truthy collection")
  case True
  then obtain name where n: "collection = Some name" "name \<noteq> []"
    by (auto simp: truthy_def split: option.splits)
  have "args_to_payload env coordinates radius collection =
      Inr \<lparr>format_value = ''VOTable'', query = region_query c radius @ collection_filter name\<rparr>"
    using assms n by (simp add: args_to_payload_def)
  moreover have "sublist (intersects_predicate c radius) (region_query c radius @ collection_filter name)"
    by (rule sublist_extend [OF region_query_parts(1)])
  moreover have "sublist junk_exclusion (region_query c radius @ collection_filter name)"
    by (rule sublist_extend [OF region_query_parts(2)])
  ultimately show ?thesis
    using True n collection_filter_opens [of "region_query c radius" name] by simp
next
  case False
  have "args_to_payload env coordinates radius collection =
      Inr \<lparr>format_value = ''VOTable'', query = region_query c radius\<rparr>"
    using assms False by (auto simp: args_to_payload_def truthy_def split: option.splits)
  then show ?thesis
    using False region_query_parts [of c radius] region_query_no_opening [of c radius]
    by (auto simp: truthy_def)
qed

theorem args_to_payload_query_witness:
  "parse_coordinates cadc_example ''08h45m07.5s +54d18m00s'' =
     Inr \<lparr>ra_degree = ''131.28125'', dec_degree = ''54.3''\<rparr> \<and>
   args_to_payload cadc_example ''08h45m07.5s +54d18m00s'' ''0.1'' (Some ''CFHT'') =
     Inr \<lparr>format_value = ''VOTable'',
          query = ''SELECT * from caom2.Observation o join caom2.Plane p ON o.obsID=p.obsID WHERE INTERSECTS( CIRCLE('ICRS', 131.28125, 54.3, 0.1), position_bounds) = 1 AND (quality_flag IS NULL OR quality_flag != 'junk') AND collection='CFHT'' @ [CHR 0x27]\<rparr> \<and>
   truthy (Some ''CFHT'') \<and>
   CHR 0x27 \<notin> set (''131.28125'' @ ''54.3'' @ ''0.1'')"
proof -
  have h: "parse_coordinates cadc_example ''08h45m07.5s +54d18m00s'' =
     Inr \<lparr>ra_degree = ''131.28125'', dec_degree = ''54.3''\<rparr>"
    by (simp add: cadc_example_def)
  show ?thesis
    using args_to_payload_query [OF h, of "''0.1''" "Some ''CFHT''"] h
    by (simp add: args_to_payload_def cadc_example_def region_query_def collection_filter_def truthy_def)
qed

text \<open>
  C1 as stated fails: a radius is embedded as its text, so a radius given as the string
  \<^verbatim>\<open>0.1 AND collection='CFHT'\<close> yields a query that contains the collection filter
  although no collection was supplied.
\<close>

theorem args_to_payload_filter_counterexample:
  "args_to_payload cadc_example ''08h45m07.5s +54d18m00s''
      (''0.1 AND collection='CFHT'' @ [CHR 0x27]) None =
     Inr \<lparr>format_value = ''VOTable'',
          query = ''SELECT * from caom2.Observation o join caom2.Plane p ON o.obsID=p.obsID WHERE INTERSECTS( CIRCLE('ICRS', 131.28125, 54.3, 0.1 AND collection='CFHT'), position_bounds) = 1 AND (quality_flag IS NULL OR quality_flag != 'junk')''\<rparr> \<and>
   sublist (collection_filter ''CFHT'')
     ''SELECT * from caom2.Observation o join caom2.Plane p ON o.obsID=p.obsID WHERE INTERSECTS( CIRCLE('ICRS', 131.28125, 54.3, 0.1 AND collection='CFHT'), position_bounds) = 1 AND (quality_flag IS NULL OR quality_flag != 'junk')'' \<and>
   \<not> truthy None"
proof -
  have "sublist (collection_filter ''CFHT'')
     ''SELECT * from caom2.Observation o join caom2.Plane p ON o.obsID=p.obsID WHERE INTERSECTS( CIRCLE('ICRS', 131.28125, 54.3, 0.1 AND collection='CFHT'), position_bounds) = 1 AND (quality_flag IS NULL OR quality_flag != 'junk')''"
    by (simp add: collection_filter_def sublist_code(3))
  then show ?thesis
    by (simp add: args_to_payload_def cadc_example_def region_query_def truthy_def)
qed

subsection \<open>The bulk download of \<^verbatim>\<open>get_images\<close>\<close>









subsection \<open>The registry cache\<close>

lemma populate_caps_cached: "caps st \<noteq> [] \<Longrightarrow> populate_caps env st = (None, st)"
  by (simp add: populate_caps_def)

lemma populate_caps_requests:
  "requests (snd (populate_caps env st)) =
     requests st @ (if caps st = [] then [RegistryGet] else [])"
  by (auto simp: populate_caps_def Let_def split: sum.splits error.splits prod.splits)

lemma caps_url_of_requests:
  "requests (snd (caps_url_of env service st)) =
     requests st @ (if \<not> prefix ''http'' service \<and> caps st = [] then [RegistryGet] else [])"
  using populate_caps_requests [of env st]
  by (auto simp: caps_url_of_def split: prod.splits option.splits)

lemma caps_url_of_caps:
  "caps st \<noteq> [] \<Longrightarrow> caps (snd (caps_url_of env service st)) = caps st"
  by (auto simp: caps_url_of_def populate_caps_cached split: prod.splits option.splits)

lemma capability_lookup_state:
  "caps (snd (capability_lookup env caps_url cid st)) = caps st \<and>
   requests (snd (capability_lookup env caps_url cid st)) =
     requests st @ [CapabilitiesGet caps_url]"
  by (auto simp: capability_lookup_def Let_def split: sum.splits)

lemma get_access_url_requests:
  "\<exists>extra. requests (snd (get_access_url env service capability st)) =
      requests st @ (if \<not> prefix ''http'' service \<and> caps st = [] then [RegistryGet] else []) @ extra
    \<and> (extra = [] \<or> (\<exists>u. extra = [CapabilitiesGet u]))"
proof (cases "caps_url_of env service st")
  case (Pair r st1)
  have rq: "requests st1 =
     requests st @ (if \<not> prefix ''http'' service \<and> caps st = [] then [RegistryGet] else [])"
    using caps_url_of_requests [of env service st] Pair by simp
  show ?thesis
    using Pair rq capability_lookup_state [of env _ _ st1]
    by (auto simp: get_access_url_def split: sum.splits option.splits)
qed

lemma get_access_url_caps:
  "caps st \<noteq> [] \<Longrightarrow> caps (snd (get_access_url env service capability st)) = caps st"
proof (cases "caps_url_of env service st")
  case (Pair r st1)
  assume "caps st \<noteq> []"
  then have "caps st1 = caps st"
    using caps_url_of_caps [of st env service] Pair by simp
  then show ?thesis
    using Pair capability_lookup_state [of env _ _ st1]
    by (auto simp: get_access_url_def split: sum.splits option.splits)
qed

lemma get_access_url_fetches:
  "registry_fetches (snd (get_access_url env service capability st)) =
     registry_fetches st + (if \<not> prefix ''http'' service \<and> caps st = [] then 1 else 0)"
  using get_access_url_requests [of env service capability st]
  by (auto simp: registry_fetches_def)

lemma get_access_url_calls_cached:
  "caps st \<noteq> [] \<Longrightarrow>
     caps (get_access_url_calls calls st) = caps st \<and>
     registry_fetches (get_access_url_calls calls st) = registry_fetches st"
proof (induction calls arbitrary: st)
  case Nil
  then show ?case by simp
next
  case (Cons call calls)
  obtain env service capability where call: "call = (env, service, capability)"
    by (cases call) auto
  let ?st1 = "snd (get_access_url env service capability st)"
  have c1: "caps ?st1 = caps st"
    using Cons.prems by (rule get_access_url_caps)
  have f1: "registry_fetches ?st1 = registry_fetches st"
    using Cons.prems by (simp add: get_access_url_fetches)
  from c1 Cons.prems have "caps ?st1 \<noteq> []" by simp
  from Cons.IH [OF this] show ?case
    using c1 f1 by (simp add: call)
qed

text \<open>
  C8, as amended. A call of \<^verbatim>\<open>get_access_url\<close> fetches the registry feed exactly when
  its service is not a URL and the cache is empty, and then once. From a state whose
  cache holds an entry, neither one call nor any run of calls changes the cache or
  fetches the feed again.
\<close>

theorem registry_fetched_while_cache_empty:
  "registry_fetches (snd (get_access_url env service capability st)) =
     registry_fetches st + (if \<not> prefix ''http'' service \<and> caps st = [] then 1 else 0) \<and>
   (caps st \<noteq> [] \<longrightarrow>
      caps (snd (get_access_url env service capability st)) = caps st \<and>
      caps (get_access_url_calls calls st) = caps st \<and>
      registry_fetches (get_access_url_calls calls st) = registry_fetches st)"
  using get_access_url_fetches [of env service capability st]
    get_access_url_caps [of st env service capability]
    get_access_url_calls_cached [of st calls]
  by simp

theorem registry_fetched_while_cache_empty_witness:
  "registry_fetches (snd (get_access_url cadc_example ''caom2ops'' None initial_state)) = 1 \<and>
   caps (snd (get_access_url cadc_example ''caom2ops'' None initial_state)) =
     [(''ivo://cadc.nrc.ca/caom2ops'', ''https://ws.cadc.example/caom2ops/capabilities'')] \<and>
   registry_fetches (get_access_url_calls
       [(cadc_registry_blank, ''caom2ops'', None), (cadc_example, ''argus'', None)]
       (snd (get_access_url cadc_example ''caom2ops'' None initial_state))) = 1 \<and>
   caps (get_access_url_calls
       [(cadc_registry_blank, ''caom2ops'', None), (cadc_example, ''argus'', None)]
       (snd (get_access_url cadc_example ''caom2ops'' None initial_state))) =
     [(''ivo://cadc.nrc.ca/caom2ops'', ''https://ws.cadc.example/caom2ops/capabilities'')]"
proof -
  have run: "snd (get_access_url cadc_example ''caom2ops'' None initial_state) =
     \<lparr>caps = [(''ivo://cadc.nrc.ca/caom2ops'', ''https://ws.cadc.example/caom2ops/capabilities'')],
      data_link_url_attr = None, requests = [RegistryGet], debug_log = []\<rparr>"
    by code_simp
  have c1: "caps (snd (get_access_url cadc_example ''caom2ops'' None initial_state)) =
      [(''ivo://cadc.nrc.ca/caom2ops'', ''https://ws.cadc.example/caom2ops/capabilities'')]"
    by (simp add: run)
  have f1: "registry_fetches (snd (get_access_url cadc_example ''caom2ops'' None initial_state)) = 1"
    using registry_fetched_while_cache_empty [of cadc_example "''caom2ops''" None initial_state]
    by (simp add: initial_state_def registry_fetches_def)
  show ?thesis
    using registry_fetched_while_cache_empty
      [of cadc_example "''caom2ops''" None
          "snd (get_access_url cadc_example ''caom2ops'' None initial_state)"
          "[(cadc_registry_blank, ''caom2ops'', None), (cadc_example, ''argus'', None)]"]
    by (simp add: c1 f1)
qed

text \<open>
  C8 as stated fails: the feed is fetched by every call that finds the cache empty, not
  only by the first. Two calls against a feed that lists no service fetch it twice; so
  do a call that meets an HTTP error and the call after it.
\<close>

theorem registry_fetched_again_counterexample:
  "registry_fetches (get_access_url_calls
      [(cadc_registry_blank, ''caom2ops'', None), (cadc_registry_blank, ''caom2ops'', None)]
      initial_state) = 2 \<and>
   requests (get_access_url_calls
      [(cadc_registry_down, ''caom2ops'', None), (cadc_example, ''caom2ops'', None)]
      initial_state) = [RegistryGet, RegistryGet]"
  by code_simp

subsection \<open>The capability resolver\<close>

lemma scan_interfaces_none:
  "\<forall>i\<in>set found. \<not> anonymous_or_cookie i \<Longrightarrow> scan_interfaces found = None"
  by (induction found) simp_all

lemma scan_capability_skipped:
  assumes "standardid cap = Some cid \<longrightarrow>
             length (interfaces cap) \<noteq> 1 \<and> (\<forall>i\<in>set (interfaces cap). \<not> anonymous_or_cookie i)"
  shows "scan_capabilities (cap # rest) cid = scan_capabilities rest cid"
proof (cases "standardid cap = Some cid")
  case True
  with assms have n: "length (interfaces cap) \<noteq> 1"
    and s: "scan_interfaces (interfaces cap) = None"
    by (simp_all add: scan_interfaces_none)
  from n have "case interfaces cap of [i] \<Rightarrow> False | _ \<Rightarrow> True"
    by (auto split: list.splits)
  with True s show ?thesis
    by (auto split: list.splits)
next
  case False
  then show ?thesis by simp
qed

lemma scan_capabilities_skipped:
  "\<forall>cap\<in>set before. standardid cap = Some cid \<longrightarrow>
      length (interfaces cap) \<noteq> 1 \<and> (\<forall>i\<in>set (interfaces cap). \<not> anonymous_or_cookie i) \<Longrightarrow>
   scan_capabilities (before @ rest) cid = scan_capabilities rest cid"
proof (induction before)
  case Nil
  then show ?case by simp
next
  case (Cons cap before)
  then show ?case
    using scan_capability_skipped [of cap cid "before @ rest"] by simp
qed

lemma not_anonymous_or_cookie:
  "securitymethod i = Some (Some sid) \<Longrightarrow> sid \<noteq> ''ivo://ivoa.net/sso#cookie'' \<Longrightarrow>
     \<not> anonymous_or_cookie i"
  by (simp add: anonymous_or_cookie_def)

lemma get_access_url_reaches_document:
  assumes "caps_url_of env service st = (Inr caps_url, st1)"
    and "capabilities_get env caps_url = Inr text"
    and "cid \<noteq> []"
  shows "fst (get_access_url env service (Some cid) st) = scan_capabilities (soup env text) cid"
  using assms by (simp add: get_access_url_def capability_lookup_def Let_def)

text \<open>
  C6, as amended. Let the capabilities document of the service be fetched, and let
  \<open>cap\<close> be a capability element for the requested identifier that has exactly one
  interface, which has an access URL. If the search reaches \<open>cap\<close>, that is, if every
  capability element for the identifier before it in the document has several or no
  interfaces, none of them anonymous or with the cookie method (in particular when
  \<open>cap\<close> is the only or the first element for the identifier), \<^verbatim>\<open>get_access_url\<close>
  returns that URL, whatever security method the interface declares.
\<close>

theorem single_interface_is_returned:
  assumes "caps_url_of env service st = (Inr caps_url, st1)"
    and "capabilities_get env caps_url = Inr text"
    and "cid \<noteq> []"
    and "soup env text = before @ cap # rest"
    and "\<forall>c\<in>set before. standardid c = Some cid \<longrightarrow>
           length (interfaces c) \<noteq> 1 \<and> (\<forall>i\<in>set (interfaces c). \<not> anonymous_or_cookie i)"
    and "standardid cap = Some cid"
    and "interfaces cap = [i]"
    and "accessurl i = Some url"
  shows "fst (get_access_url env service (Some cid) st) = Inr url"
proof -
  have "scan_capabilities (before @ cap # rest) cid = scan_capabilities (cap # rest) cid"
    using assms(5) by (rule scan_capabilities_skipped)
  also have "\<dots> = Inr url"
    using assms(6-8) by (simp add: accessurl_text_def)
  finally show ?thesis
    using get_access_url_reaches_document [OF assms(1-3)] assms(4) by simp
qed

theorem single_interface_is_returned_witness:
  "fst (get_access_url cadc_example ''caom2ops'' (Some ''ivo://ivoa.net/std/DataLink#links-1.0'')
          initial_state) = Inr ''https://ws.cadc.example/caom2ops/datalink'' \<and>
   soup cadc_example ''https://ws.cadc.example/caom2ops/capabilities'' =
     [\<lparr>standardid = Some ''ivo://ivoa.net/std/DataLink#links-1.0'',
       interfaces = [\<lparr>securitymethod = Some (Some ''ivo://ivoa.net/sso#tls-with-certificate''),
                      accessurl = Some ''https://ws.cadc.example/caom2ops/datalink''\<rparr>]\<rparr>]"
proof -
  have loc: "caps_url_of cadc_example ''caom2ops'' initial_state =
      (Inr ''https://ws.cadc.example/caom2ops/capabilities'',
       \<lparr>caps = [(''ivo://cadc.nrc.ca/caom2ops'', ''https://ws.cadc.example/caom2ops/capabilities'')],
        data_link_url_attr = None, requests = [RegistryGet], debug_log = []\<rparr>)"
    by code_simp
  have doc: "capabilities_get cadc_example ''https://ws.cadc.example/caom2ops/capabilities'' =
      Inr ''https://ws.cadc.example/caom2ops/capabilities''"
    by (simp add: cadc_example_def)
  have parsed: "soup cadc_example ''https://ws.cadc.example/caom2ops/capabilities'' =
     [] @ \<lparr>standardid = Some ''ivo://ivoa.net/std/DataLink#links-1.0'',
       interfaces = [\<lparr>securitymethod = Some (Some ''ivo://ivoa.net/sso#tls-with-certificate''),
                      accessurl = Some ''https://ws.cadc.example/caom2ops/datalink''\<rparr>]\<rparr> # []"
    by (simp add: cadc_example_def)
  show ?thesis
    using single_interface_is_returned [OF loc doc _ parsed] parsed
    by simp
qed

text \<open>
  C6 as stated fails: the search returns at the first capability element for the
  identifier that yields a URL. In a document whose first element for the identifier
  has an anonymous interface and one for client certificates, and whose second
  element for it has exactly one interface, the URL returned is that of the anonymous
  interface of the first element, not that of the single interface of the second.
\<close>

theorem earlier_element_wins_counterexample:
  "soup cadc_anonymous_first ''https://ws.cadc.example/caom2ops/capabilities'' =
     [\<lparr>standardid = Some ''ivo://ivoa.net/std/DataLink#links-1.0'',
       interfaces =
         [\<lparr>securitymethod = None,
           accessurl = Some ''https://ws.cadc.example/caom2ops/anon/datalink''\<rparr>,
          \<lparr>securitymethod = Some (Some ''ivo://ivoa.net/sso#tls-with-certificate''),
           accessurl = Some ''https://ws.cadc.example/caom2ops/cert/datalink''\<rparr>]\<rparr>,
      \<lparr>standardid = Some ''ivo://ivoa.net/std/DataLink#links-1.0'',
       interfaces =
         [\<lparr>securitymethod = Some (Some ''ivo://ivoa.net/sso#tls-with-certificate''),
           accessurl = Some ''https://ws.cadc.example/caom2ops/single/datalink''\<rparr>]\<rparr>] \<and>
   fst (get_access_url cadc_anonymous_first ''caom2ops''
          (Some ''ivo://ivoa.net/std/DataLink#links-1.0'') initial_state) =
     Inr ''https://ws.cadc.example/caom2ops/anon/datalink''"
proof -
  have "fst (get_access_url cadc_anonymous_first ''caom2ops''
          (Some ''ivo://ivoa.net/std/DataLink#links-1.0'') initial_state) =
     Inr ''https://ws.cadc.example/caom2ops/anon/datalink''"
    by code_simp
  then show ?thesis
    by (simp add: cadc_anonymous_first_def cadc_example_def)
qed

text \<open>
  C7, as amended. Let the capabilities document of the service be fetched. If every
  capability element for the requested identifier has several (or no) interfaces and
  each of these declares a security method with an identifier other than the cookie
  method, \<^verbatim>\<open>get_access_url\<close> raises \<^verbatim>\<open>RuntimeError\<close>.
\<close>

theorem unusable_interfaces_raise:
  assumes "caps_url_of env service st = (Inr caps_url, st1)"
    and "capabilities_get env caps_url = Inr text"
    and "cid \<noteq> []"
    and "\<forall>c\<in>set (soup env text). standardid c = Some cid \<longrightarrow>
           length (interfaces c) \<noteq> 1 \<and>
           (\<forall>i\<in>set (interfaces c). \<exists>sid. securitymethod i = Some (Some sid) \<and>
                                        sid \<noteq> ''ivo://ivoa.net/sso#cookie'')"
  shows "fst (get_access_url env service (Some cid) st) =
           Inl (RuntimeError (''ERROR - capabilitiy '' @ cid @
                  '' not found or not working with anonymous or cookie access''))"
proof -
  have "\<forall>c\<in>set (soup env text). standardid c = Some cid \<longrightarrow>
           length (interfaces c) \<noteq> 1 \<and> (\<forall>i\<in>set (interfaces c). \<not> anonymous_or_cookie i)"
    using assms(4) by (metis not_anonymous_or_cookie)
  then have "scan_capabilities (soup env text @ []) cid = scan_capabilities [] cid"
    by (rule scan_capabilities_skipped)
  then show ?thesis
    using get_access_url_reaches_document [OF assms(1-3)] by simp
qed

theorem unusable_interfaces_raise_witness:
  "fst (get_access_url cadc_certificate_only ''caom2ops''
          (Some ''ivo://ivoa.net/std/DataLink#links-1.0'') initial_state) =
     Inl (RuntimeError ''ERROR - capabilitiy ivo://ivoa.net/std/DataLink#links-1.0 not found or not working with anonymous or cookie access'')"
proof -
  have loc: "caps_url_of cadc_certificate_only ''caom2ops'' initial_state =
      (Inr ''https://ws.cadc.example/caom2ops/capabilities'',
       \<lparr>caps = [(''ivo://cadc.nrc.ca/caom2ops'', ''https://ws.cadc.example/caom2ops/capabilities'')],
        data_link_url_attr = None, requests = [RegistryGet], debug_log = []\<rparr>)"
    by code_simp
  have doc: "capabilities_get cadc_certificate_only ''https://ws.cadc.example/caom2ops/capabilities'' =
      Inr ''https://ws.cadc.example/caom2ops/capabilities''"
    by (simp add: cadc_certificate_only_def cadc_example_def)
  show ?thesis
    using unusable_interfaces_raise [OF loc doc, of "''ivo://ivoa.net/std/DataLink#links-1.0''"]
    by (simp add: cadc_certificate_only_def cadc_example_def)
qed

text \<open>
  C7 as stated fails: a capability element with exactly one interface yields that
  interface's URL before any security method is looked at. In a document with two
  elements for the identifier, each with a single interface, one for client
  certificates and one for basic authentication, there are several interfaces for the
  identifier and none is anonymous or has the cookie method, yet the call returns the
  URL of the first and raises nothing.
\<close>

theorem single_interfaces_return_counterexample:
  "soup cadc_two_single_elements ''https://ws.cadc.example/caom2ops/capabilities'' =
     [\<lparr>standardid = Some ''ivo://ivoa.net/std/DataLink#links-1.0'',
       interfaces =
         [\<lparr>securitymethod = Some (Some ''ivo://ivoa.net/sso#tls-with-certificate''),
           accessurl = Some ''https://ws.cadc.example/caom2ops/cert/datalink''\<rparr>]\<rparr>,
      \<lparr>standardid = Some ''ivo://ivoa.net/std/DataLink#links-1.0'',
       interfaces =
         [\<lparr>securitymethod = Some (Some ''http://www.w3.org/Protocols/HTTP/1.0/spec.html#BasicAA''),
           accessurl = Some ''https://ws.cadc.example/caom2ops/auth/datalink''\<rparr>]\<rparr>] \<and>
   fst (get_access_url cadc_two_single_elements ''caom2ops''
          (Some ''ivo://ivoa.net/std/DataLink#links-1.0'') initial_state) =
     Inr ''https://ws.cadc.example/caom2ops/cert/datalink''"
proof -
  have "fst (get_access_url cadc_two_single_elements ''caom2ops''
          (Some ''ivo://ivoa.net/std/DataLink#links-1.0'') initial_state) =
     Inr ''https://ws.cadc.example/caom2ops/cert/datalink''"
    by code_simp
  then show ?thesis
    by (simp add: cadc_two_single_elements_def cadc_example_def)
qed

subsection \<open>\<^verbatim>\<open>get_data_urls\<close>\<close>

lemma data_link_url_cached:
  "data_link_url_attr st = Some url \<Longrightarrow> data_link_url env st = (Inr url, st)"
  by (simp add: data_link_url_def)

lemma data_link_url_stored:
  "data_link_url env st = (Inr url, st1) \<Longrightarrow> data_link_url_attr st1 = Some url"
  by (auto simp: data_link_url_def split: option.splits prod.splits sum.splits)

lemma link_urls_selected:
  "\<forall>row\<in>set rows. is_ascii (semantics row) \<and> is_ascii (access_url row) \<Longrightarrow>
     link_urls include_auxiliaries rows result =
       Inr (result @ map access_url (filter (contributes include_auxiliaries) rows))"
  by (induction rows arbitrary: result) (auto simp: decode_ascii_def contributes_def)

lemma data_urls_loop_selected:
  assumes "data_link_url_attr st = Some url"
    and "\<forall>pid\<in>set pids. datalink_get env url [pid] = Inr (links pid) \<and>
           (\<forall>row\<in>set (links pid). is_ascii (semantics row) \<and> is_ascii (access_url row))"
  shows "fst (data_urls_loop env include_auxiliaries pids result st) =
           Inr (result @ concat (map (\<lambda>pid. map access_url
                                   (filter (contributes include_auxiliaries) (links pid))) pids))"
  using assms
proof (induction pids arbitrary: result st)
  case Nil
  then show ?case by simp
next
  case (Cons pid pids)
  let ?st2 = "st\<lparr>requests := requests st @ [DatalinkGet url [pid]]\<rparr>"
  have a: "data_link_url_attr ?st2 = Some url"
    using Cons.prems(1) by simp
  have rest: "\<forall>pid\<in>set pids. datalink_get env url [pid] = Inr (links pid) \<and>
           (\<forall>row\<in>set (links pid). is_ascii (semantics row) \<and> is_ascii (access_url row))"
    using Cons.prems(2) by simp
  have here: "datalink_get env url [pid] = Inr (links pid)"
    and asc: "\<forall>row\<in>set (links pid). is_ascii (semantics row) \<and> is_ascii (access_url row)"
    using Cons.prems(2) by simp_all
  show ?case
    using Cons.IH [OF a rest] here
    by (simp add: data_link_url_cached [OF Cons.prems(1)] Let_def
        link_urls_selected [OF asc])
qed

lemma data_urls_loop_resolved:
  assumes "data_link_url env st = (Inr url, st1)"
  shows "fst (data_urls_loop env include_auxiliaries pids result st) =
         fst (data_urls_loop env include_auxiliaries pids result st1)"
proof (cases pids)
  case Nil
  then show ?thesis by simp
next
  case (Cons pid rest)
  have "data_link_url env st1 = (Inr url, st1)"
    using data_link_url_stored [OF assms] by (rule data_link_url_cached)
  with assms Cons show ?thesis by simp
qed

text \<open>
  C4. Let the query result have a \<^verbatim>\<open>publisherID\<close> column, let the DataLink URL
  resolve, and let the service answer, for each identifier, a table of ASCII rows.
  Then \<^verbatim>\<open>get_data_urls\<close> returns, identifier by identifier and row by row, the access
  URL of every row whose semantics is \<^verbatim>\<open>#this\<close>, whatever \<^verbatim>\<open>include_auxiliaries\<close>
  is, and of every other row with a non-empty access URL exactly when
  \<^verbatim>\<open>include_auxiliaries\<close> is true. The concrete run has one primary and one preview
  row: without auxiliaries the result is the primary URL, with them both URLs.
\<close>

theorem get_data_urls_selects_links:
  assumes "table_len t \<noteq> 0"
    and "column t ''publisherID'' = Some pids"
    and "data_link_url env st = (Inr url, st1)"
    and "\<forall>pid\<in>set pids. datalink_get env url [pid] = Inr (links pid) \<and>
           (\<forall>row\<in>set (links pid). is_ascii (semantics row) \<and> is_ascii (access_url row))"
  shows "fst (get_data_urls env (Some t) include_auxiliaries st) =
           Inr (concat (map (\<lambda>pid. map access_url
                  (filter (\<lambda>row. semantics row = ''#this'' \<or>
                                 (access_url row \<noteq> [] \<and> include_auxiliaries)) (links pid)))
                  pids))"
proof -
  have "fst (get_data_urls env (Some t) include_auxiliaries st) =
        fst (data_urls_loop env include_auxiliaries pids [] st1)"
    using assms(1,2) data_urls_loop_resolved [OF assms(3)]
    by (simp add: get_data_urls_def)
  also have "\<dots> = Inr ([] @ concat (map (\<lambda>pid. map access_url
                  (filter (contributes include_auxiliaries) (links pid))) pids))"
    using data_link_url_stored [OF assms(3)] assms(4) by (rule data_urls_loop_selected)
  finally show ?thesis
    by (simp add: contributes_def [abs_def])
qed

theorem get_data_urls_selects_links_witness:
  "fst (get_data_urls cadc_two_links (Some [(''publisherID'', [''ivo://cadc.nrc.ca/CFHT?1/1p''])])
          False initial_state) =
     Inr [''https://ws.cadc.example/data/pub/CFHT/1.fits''] \<and>
   fst (get_data_urls cadc_two_links (Some [(''publisherID'', [''ivo://cadc.nrc.ca/CFHT?1/1p''])])
          True initial_state) =
     Inr [''https://ws.cadc.example/data/pub/CFHT/1.fits'',
          ''https://ws.cadc.example/data/pub/CFHT/1.jpg'']"
proof -
  let ?links = "\<lambda>pid :: string.
        [\<lparr>semantics = ''#this'', access_url = ''https://ws.cadc.example/data/pub/CFHT/1.fits'',
              input_params = []\<rparr>,
         \<lparr>semantics = ''#preview'', access_url = ''https://ws.cadc.example/data/pub/CFHT/1.jpg'',
              input_params = []\<rparr>]"
  have len: "table_len [(''publisherID'', [''ivo://cadc.nrc.ca/CFHT?1/1p''])] \<noteq> 0"
    by (simp add: table_len_def)
  have col: "column [(''publisherID'', [''ivo://cadc.nrc.ca/CFHT?1/1p''])] ''publisherID'' =
      Some [''ivo://cadc.nrc.ca/CFHT?1/1p'']"
    by (simp add: column_def)
  have url: "data_link_url cadc_two_links initial_state =
      (Inr ''https://ws.cadc.example/caom2ops/datalink'',
       \<lparr>caps = [(''ivo://cadc.nrc.ca/caom2ops'', ''https://ws.cadc.example/caom2ops/capabilities'')],
        data_link_url_attr = Some ''https://ws.cadc.example/caom2ops/datalink'',
        requests = [RegistryGet, CapabilitiesGet ''https://ws.cadc.example/caom2ops/capabilities''],
        debug_log = []\<rparr>)"
    by code_simp
  have links: "\<forall>pid\<in>set [''ivo://cadc.nrc.ca/CFHT?1/1p''].
      datalink_get cadc_two_links ''https://ws.cadc.example/caom2ops/datalink'' [pid] = Inr (?links pid) \<and>
      (\<forall>row\<in>set (?links pid). is_ascii (semantics row) \<and> is_ascii (access_url row))"
    by (simp add: cadc_two_links_def cadc_example_def is_ascii_def)
  show ?thesis
    using get_data_urls_selects_links [OF len col url links, of False]
      get_data_urls_selects_links [OF len col url links, of True]
    by simp
qed

text \<open>
  C5. An empty query result (or \<^verbatim>\<open>None\<close>) makes \<^verbatim>\<open>get_data_urls\<close> raise
  \<^verbatim>\<open>AttributeError\<close>, and so does a non-empty one without the column
  \<^verbatim>\<open>publisherID\<close>, the publisher column this function reads; in both cases the state is the one the call started from, so no
  request has been issued.
\<close>

theorem get_data_urls_usage_errors:
  "(is_empty_result query_result \<longrightarrow>
      get_data_urls env query_result include_auxiliaries st =
        (Inl (AttributeError ''Missing metadata argument''), st)) \<and>
   (\<forall>t. query_result = Some t \<and> table_len t \<noteq> 0 \<and> column t ''publisherID'' = None \<longrightarrow>
      get_data_urls env query_result include_auxiliaries st = (Inl missing_column, st))"
  by (auto simp: get_data_urls_def is_empty_result_def split: option.splits)

theorem get_data_urls_usage_errors_witness:
  "is_empty_result (Some [(''publisherID'', [])]) \<and>
   get_data_urls cadc_example (Some [(''publisherID'', [])]) False initial_state =
     (Inl (AttributeError ''Missing metadata argument''), initial_state) \<and>
   get_data_urls cadc_example (Some [(''collection'', [''CFHT'']), (''observationID'', [''1'']) ])
       False initial_state =
     (Inl (AttributeError ''caomPublisherID column missing from query_result argument''),
      initial_state)"
  using get_data_urls_usage_errors
      [of "Some [(''publisherID'', [])]" cadc_example False initial_state]
    get_data_urls_usage_errors
      [of "Some [(''collection'', [''CFHT'']), (''observationID'', [''1''])]" cadc_example False
          initial_state]
  by (simp add: is_empty_result_def table_len_def column_def missing_column_def)


subsection \<open>\<^verbatim>\<open>get_image_list\<close>: the batches\<close>

lemma chunks_from_step:
  "idx < length obj_list \<Longrightarrow> 0 < chunk_len \<Longrightarrow>
     chunks_from idx obj_list chunk_len =
       take chunk_len (drop idx obj_list) # chunks_from (idx + chunk_len) obj_list chunk_len"
  by (subst chunks_from.simps) simp

lemma chunks_from_done:
  "\<not> (idx < length obj_list \<and> 0 < chunk_len) \<Longrightarrow> chunks_from idx obj_list chunk_len = []"
  by (subst chunks_from.simps) simp

lemma chunks_from_concat:
  "0 < chunk_len \<Longrightarrow> concat (chunks_from idx obj_list chunk_len) = drop idx obj_list"
proof (induction idx obj_list chunk_len rule: chunks_from.induct)
  case (1 idx obj_list chunk_len)
  show ?case
  proof (cases "idx < length obj_list")
    case True
    have "take chunk_len (drop idx obj_list) @ drop (idx + chunk_len) obj_list = drop idx obj_list"
      by (metis add.commute append_take_drop_id drop_drop)
    with True 1 show ?thesis
      by (simp add: chunks_from_step)
  next
    case False
    then show ?thesis by (simp add: chunks_from_done)
  qed
qed

lemma chunks_from_sizes:
  "b \<in> set (chunks_from idx obj_list chunk_len) \<Longrightarrow> b \<noteq> [] \<and> length b \<le> chunk_len"
proof (induction idx obj_list chunk_len rule: chunks_from.induct)
  case (1 idx obj_list chunk_len)
  show ?case
  proof (cases "idx < length obj_list \<and> 0 < chunk_len")
    case True
    from "1.prems" True have
      "b = take chunk_len (drop idx obj_list) \<or> b \<in> set (chunks_from (idx + chunk_len) obj_list chunk_len)"
      by (simp add: chunks_from_step)
    then show ?thesis
    proof
      assume "b = take chunk_len (drop idx obj_list)"
      with True show ?thesis by simp
    next
      assume "b \<in> set (chunks_from (idx + chunk_len) obj_list chunk_len)"
      with "1.IH" True show ?thesis by simp
    qed
  next
    case False
    with "1.prems" show ?thesis by (simp add: chunks_from_done)
  qed
qed

lemma chunks_from_45:
  assumes "length obj_list = 45"
  shows "chunks_from 0 obj_list 20 =
           [take 20 obj_list, take 20 (drop 20 obj_list), drop 40 obj_list]"
proof -
  have "chunks_from 60 obj_list 20 = []"
    using assms by (simp add: chunks_from_done)
  moreover have "chunks_from 40 obj_list 20 = take 20 (drop 40 obj_list) # chunks_from (40 + 20) obj_list 20"
    using assms by (intro chunks_from_step) simp_all
  moreover have "chunks_from 20 obj_list 20 = take 20 (drop 20 obj_list) # chunks_from (20 + 20) obj_list 20"
    using assms by (intro chunks_from_step) simp_all
  moreover have "chunks_from 0 obj_list 20 = take 20 (drop 0 obj_list) # chunks_from (0 + 20) obj_list 20"
    using assms by (intro chunks_from_step) simp_all
  ultimately show ?thesis
    using assms by simp
qed

lemma datalink_batches_append:
  "datalink_batches (xs @ ys) = datalink_batches xs @ datalink_batches ys"
  by (induction xs rule: datalink_batches.induct) simp_all

lemma get_access_url_batches:
  "datalink_batches (requests (snd (get_access_url env service capability st))) =
     datalink_batches (requests st)"
  using get_access_url_requests [of env service capability st]
  by (auto simp: datalink_batches_append)

lemma data_link_url_batches:
  "datalink_batches (requests (snd (data_link_url env st))) = datalink_batches (requests st)"
  using get_access_url_batches
    [of env "CADCDATALINK_SERVICE_URI env" "Some ''ivo://ivoa.net/std/DataLink#links-1.0''" st]
  by (auto simp: data_link_url_def split: option.splits prod.splits sum.splits)

lemma image_list_loop_batches:
  "image_list_loop env cutout_params batches result st = (Inr urls, st') \<Longrightarrow>
     datalink_batches (requests st') = datalink_batches (requests st) @ batches"
proof (induction batches arbitrary: result st)
  case Nil
  then show ?case by simp
next
  case (Cons pid_sublist rest)
  obtain r st1 where d: "data_link_url env st = (r, st1)"
    by (cases "data_link_url env st") auto
  have b1: "datalink_batches (requests st1) = datalink_batches (requests st)"
    using data_link_url_batches [of env st] d by simp
  from Cons.prems d obtain url where r: "r = Inr url"
    by (cases r) auto
  let ?st2 = "st1\<lparr>requests := requests st1 @ [DatalinkGet url pid_sublist]\<rparr>"
  from Cons.prems d r obtain datalink result' where
    "datalink_get env url pid_sublist = Inr datalink"
    "cutout_urls env cutout_params (bysemantics ''#cutout'' datalink) result = Inr result'"
    "image_list_loop env cutout_params rest result' ?st2 = (Inr urls, st')"
    by (auto simp: Let_def split: sum.splits)
  from Cons.IH [OF this(3)] b1 show ?case
    by (simp add: datalink_batches_append)
qed

lemma image_list_loop_batches_prefix:
  "\<exists>k. datalink_batches (requests (snd (image_list_loop env cutout_params batches result st))) =
       datalink_batches (requests st) @ take k batches"
proof (induction batches arbitrary: result st)
  case Nil
  then show ?case by simp
next
  case (Cons pid_sublist rest)
  obtain r st1 where d: "data_link_url env st = (r, st1)"
    by (cases "data_link_url env st") auto
  have b1: "datalink_batches (requests st1) = datalink_batches (requests st)"
    using data_link_url_batches [of env st] d by simp
  show ?case
  proof (cases r)
    case (Inl e)
    with d b1 show ?thesis by (intro exI [of _ 0]) simp
  next
    case (Inr url)
    let ?st2 = "st1\<lparr>requests := requests st1 @ [DatalinkGet url pid_sublist]\<rparr>"
    have b2: "datalink_batches (requests ?st2) = datalink_batches (requests st) @ [pid_sublist]"
      using b1 by (simp add: datalink_batches_append)
    show ?thesis
    proof (cases "datalink_get env url pid_sublist")
      case (Inl e)
      with d Inr b2 show ?thesis by (intro exI [of _ 1]) (simp add: Let_def)
    next
      case dl: (Inr datalink)
      show ?thesis
      proof (cases "cutout_urls env cutout_params (bysemantics ''#cutout'' datalink) result")
        case (Inl e)
        with d Inr dl b2 show ?thesis by (intro exI [of _ 1]) (simp add: Let_def)
      next
        case cu: (Inr result')
        from Cons.IH [of result' ?st2] obtain k where
          "datalink_batches (requests (snd (image_list_loop env cutout_params rest result' ?st2))) =
             datalink_batches (requests ?st2) @ take k rest" by blast
        with d Inr dl cu b2 show ?thesis
          by (intro exI [of _ "Suc k"]) (simp add: Let_def)
      qed
    qed
  qed
qed

text \<open>
  C3. Let the query result be non-empty with a \<^verbatim>\<open>caomPublisherID\<close> column. The
  batches are consecutive slices of the column: their concatenation is the column,
  none is empty and none is longer than 20. A call of \<^verbatim>\<open>get_image_list\<close> that
  returns has issued one DataLink request for each batch, in order, and no other
  DataLink request; a call that raises has issued those of the first batches only. For 45
  identifiers the batches are the first 20, the next 20 and the last 5, so a call that
  returns has issued exactly three DataLink requests.
\<close>

theorem get_image_list_batches:
  assumes "table_len t \<noteq> 0"
    and "column t ''caomPublisherID'' = Some pids"
  shows "(\<forall>urls st'. get_image_list env (Some t) coordinates radius st = (Inr urls, st') \<longrightarrow>
            datalink_batches (requests st') =
              datalink_batches (requests st) @ chunks_from 0 pids 20) \<and>
         (\<exists>k. datalink_batches (requests (snd (get_image_list env (Some t) coordinates radius st))) =
              datalink_batches (requests st) @ take k (chunks_from 0 pids 20)) \<and>
         concat (chunks_from 0 pids 20) = pids \<and>
         (\<forall>b\<in>set (chunks_from 0 pids 20). b \<noteq> [] \<and> length b \<le> 20) \<and>
         (length pids = 45 \<longrightarrow>
            chunks_from 0 pids 20 = [take 20 pids, take 20 (drop 20 pids), drop 40 pids] \<and>
            map length (chunks_from 0 pids 20) = [20, 20, 5])"
proof (intro conjI allI impI ballI)
  fix urls st'
  assume run: "get_image_list env (Some t) coordinates radius st = (Inr urls, st')"
  then obtain c where c: "parse_coordinates env coordinates = Inr c"
    using assms by (cases "parse_coordinates env coordinates") (auto simp: get_image_list_def)
  from run c assms have
    "image_list_loop env
       [(''POS'', ''CIRCLE '' @ ra_degree c @ '' '' @ dec_degree c @ '' '' @ radius)]
       (chunks_from 0 pids 20) [] st = (Inr urls, st')"
    by (simp add: get_image_list_def chunks_def n_pids_def)
  then show "datalink_batches (requests st') =
      datalink_batches (requests st) @ chunks_from 0 pids 20"
    by (rule image_list_loop_batches)
next
  show "\<exists>k. datalink_batches (requests (snd (get_image_list env (Some t) coordinates radius st))) =
      datalink_batches (requests st) @ take k (chunks_from 0 pids 20)"
  proof (cases "parse_coordinates env coordinates")
    case (Inl e)
    with assms show ?thesis
      by (intro exI [of _ 0]) (simp add: get_image_list_def)
  next
    case (Inr c)
    with assms show ?thesis
      using image_list_loop_batches_prefix
        [of env "[(''POS'', ''CIRCLE '' @ ra_degree c @ '' '' @ dec_degree c @ '' '' @ radius)]"
            "chunks_from 0 pids 20" "[]" st]
      by (simp add: get_image_list_def chunks_def n_pids_def)
  qed
next
  show "concat (chunks_from 0 pids 20) = pids"
    by (simp add: chunks_from_concat)
next
  fix b assume "b \<in> set (chunks_from 0 pids 20)"
  then show "b \<noteq> []" and "length b \<le> 20"
    using chunks_from_sizes [of b 0 pids 20] by simp_all
next
  assume l: "length pids = 45"
  then show "chunks_from 0 pids 20 = [take 20 pids, take 20 (drop 20 pids), drop 40 pids]"
    by (rule chunks_from_45)
  with l show "map length (chunks_from 0 pids 20) = [20, 20, 5]"
    by simp
qed

theorem get_image_list_batches_witness:
  "length example_pids = 45 \<and>
   fst (get_image_list cadc_example (Some [(''caomPublisherID'', example_pids)])
          ''08h45m07.5s +54d18m00s'' ''0.1'' initial_state) = Inr [] \<and>
   datalink_batches (requests (snd (get_image_list cadc_example
        (Some [(''caomPublisherID'', example_pids)]) ''08h45m07.5s +54d18m00s'' ''0.1''
        initial_state))) =
     [take 20 example_pids, take 20 (drop 20 example_pids), drop 40 example_pids] \<and>
   map length (chunks_from 0 example_pids 20) = [20, 20, 5]"
proof -
  let ?run = "get_image_list cadc_example (Some [(''caomPublisherID'', example_pids)])
          ''08h45m07.5s +54d18m00s'' ''0.1'' initial_state"
  have len: "length example_pids = 45"
    by (simp add: example_pids_def)
  have rows: "table_len [(''caomPublisherID'', example_pids)] \<noteq> 0"
    by (simp add: table_len_def len)
  have col: "column [(''caomPublisherID'', example_pids)] ''caomPublisherID'' = Some example_pids"
    by (simp add: column_def)
  have res: "fst ?run = Inr []"
    by code_simp
  then have run: "?run = (Inr [], snd ?run)"
    by (metis prod.collapse)
  have start: "datalink_batches (requests initial_state) = []"
    by (simp add: initial_state_def)
  note batches = get_image_list_batches [OF rows col, of cadc_example "''08h45m07.5s +54d18m00s''"
        "''0.1''" initial_state]
  from batches run have
    "datalink_batches (requests (snd ?run)) =
       datalink_batches (requests initial_state) @ chunks_from 0 example_pids 20"
    by blast
  moreover from batches len have
    "chunks_from 0 example_pids 20 =
       [take 20 example_pids, take 20 (drop 20 example_pids), drop 40 example_pids]"
    and "map length (chunks_from 0 example_pids 20) = [20, 20, 5]"
    by blast+
  ultimately show ?thesis
    using len res start by (simp del: take_all_iff)
qed

subsection \<open>The two names of the publisher column\<close>

lemma registry_lines_error:
  "registry_lines lines cache = (Some e, cache') \<Longrightarrow> e = ValueError"
  by (induction lines arbitrary: cache) (auto split: if_splits list.splits)

lemma caps_url_of_error:
  assumes "fst (caps_url_of env service st) = Inl e"
  shows "e = ValueError \<or> registry_get env = Inl e \<or>
         e = AttributeError (''Cannot find the capabilities of service '' @ service)"
proof -
  have "populate_caps env st = (Some x, st1) \<Longrightarrow> x = ValueError \<or> registry_get env = Inl x"
    for x st1
    by (auto simp: populate_caps_def Let_def split: if_splits sum.splits prod.splits
        dest: registry_lines_error)
  with assms show ?thesis
    by (auto simp: caps_url_of_def split: if_splits prod.splits option.splits)
qed

lemma scan_interfaces_error:
  "scan_interfaces found = Some (Inl e) \<Longrightarrow>
     e = no_accessurl"
  by (induction found) (auto simp: accessurl_text_def split: if_splits option.splits)

lemma scan_capabilities_error:
  "scan_capabilities found cid = Inl e \<Longrightarrow>
     (\<exists>msg. e = RuntimeError msg) \<or> e = no_accessurl"
proof (induction found)
  case Nil
  then show ?case by auto
next
  case (Cons cap rest)
  show ?case
  proof (cases "standardid cap = Some cid")
    case False
    with Cons show ?thesis by simp
  next
    case True
    show ?thesis
    proof (cases "interfaces cap")
      case Nil
      with True Cons show ?thesis by simp
    next
      case (Cons i more)
      note ifs = this
      show ?thesis
      proof (cases more)
        case Nil
        with True ifs Cons.prems show ?thesis
          by (auto simp: accessurl_text_def split: option.splits)
      next
        case (Cons j others)
        with True ifs Cons.prems Cons.IH show ?thesis
          using scan_interfaces_error [of "i # j # others" e]
          by (cases "scan_interfaces (i # j # others)") auto
      qed
    qed
  qed
qed

lemma get_access_url_error:
  assumes "fst (get_access_url env service capability st) = Inl e"
    and "\<not> raised_by_collaborator env e"
  shows "e \<noteq> missing_column"
proof (cases "caps_url_of env service st")
  case (Pair r st1)
  show ?thesis
  proof (cases r)
    case (Inl x)
    with Pair assms(1) have "x = e" by (simp add: get_access_url_def)
    with Pair Inl caps_url_of_error [of env service st e] assms(2) show ?thesis
      by (auto simp: raised_by_collaborator_def missing_column_def)
  next
    case (Inr caps_url)
    with Pair assms(1) obtain cid where cid: "capability = Some cid" "cid \<noteq> []"
      and look: "fst (capability_lookup env caps_url cid st1) = Inl e"
      by (auto simp: get_access_url_def split: option.splits if_splits)
    from look assms(2) have "\<exists>text. scan_capabilities (soup env text) cid = Inl e"
      by (auto simp: capability_lookup_def Let_def raised_by_collaborator_def split: sum.splits)
    then show ?thesis
      using scan_capabilities_error by (fastforce simp: missing_column_def no_accessurl_def)
  qed
qed

lemma data_link_url_error:
  assumes "fst (data_link_url env st) = Inl e" and "\<not> raised_by_collaborator env e"
  shows "e \<noteq> missing_column"
proof -
  from assms(1) have "fst (get_access_url env (CADCDATALINK_SERVICE_URI env)
      (Some ''ivo://ivoa.net/std/DataLink#links-1.0'') st) = Inl e"
    by (auto simp: data_link_url_def split: option.splits prod.splits sum.splits)
  then show ?thesis using assms(2) by (rule get_access_url_error)
qed

lemma cutout_urls_error:
  "cutout_urls env cutout_params rows result = Inl e \<Longrightarrow> e = UnicodeDecodeError"
  by (induction rows arbitrary: result)
    (auto simp: decode_ascii_def split: sum.splits if_splits)

lemma image_list_loop_error:
  assumes "fst (image_list_loop env cutout_params batches result st) = Inl e"
    and "\<not> raised_by_collaborator env e"
  shows "e \<noteq> missing_column"
  using assms(1)
proof (induction batches arbitrary: result st)
  case Nil
  then show ?case by simp
next
  case (Cons pid_sublist rest)
  obtain r st1 where d: "data_link_url env st = (r, st1)"
    by (cases "data_link_url env st") auto
  show ?case
  proof (cases r)
    case (Inl x)
    with d Cons.prems have "fst (data_link_url env st) = Inl e" by simp
    then show ?thesis using assms(2) by (rule data_link_url_error)
  next
    case (Inr url)
    let ?st2 = "st1\<lparr>requests := requests st1 @ [DatalinkGet url pid_sublist]\<rparr>"
    show ?thesis
    proof (cases "datalink_get env url pid_sublist")
      case (Inl x)
      with d Inr Cons.prems have "datalink_get env url pid_sublist = Inl e"
        by (simp add: Let_def)
      with assms(2) show ?thesis by (auto simp: raised_by_collaborator_def)
    next
      case dl: (Inr datalink)
      show ?thesis
      proof (cases "cutout_urls env cutout_params (bysemantics ''#cutout'' datalink) result")
        case (Inl x)
        with d Inr dl Cons.prems have "x = e" by (simp add: Let_def)
        with Inl cutout_urls_error show ?thesis
          by (fastforce simp: missing_column_def)
      next
        case cu: (Inr result')
        with d Inr dl Cons.prems have
          "fst (image_list_loop env cutout_params rest result' ?st2) = Inl e"
          by (simp add: Let_def)
        then show ?thesis by (rule Cons.IH)
      qed
    qed
  qed
qed

text \<open>
  C10. For a non-empty query result that has the column \<^verbatim>\<open>caomPublisherID\<close> and not
  the column \<^verbatim>\<open>publisherID\<close>, \<^verbatim>\<open>get_data_urls\<close> raises the missing-column error (its
  message names \<^verbatim>\<open>caomPublisherID\<close>, the column it reads is \<^verbatim>\<open>publisherID\<close>).
  \<^verbatim>\<open>get_image_list\<close> reads \<^verbatim>\<open>caomPublisherID\<close>: once the coordinates parse it goes on
  to the DataLink requests for the batches of that column, and it does not raise the
  missing-column error (unless a collaborator raises that very exception).
\<close>

theorem publisher_column_names_differ:
  assumes "table_len t \<noteq> 0"
    and "column t ''caomPublisherID'' = Some pids"
    and "column t ''publisherID'' = None"
  shows "get_data_urls env (Some t) include_auxiliaries st = (Inl missing_column, st) \<and>
         missing_column =
           AttributeError ''caomPublisherID column missing from query_result argument'' \<and>
         get_image_list env (Some t) coordinates radius st =
           (case parse_coordinates env coordinates of
              Inl e \<Rightarrow> (Inl e, st)
            | Inr c \<Rightarrow>
                image_list_loop env
                  [(''POS'', ''CIRCLE '' @ ra_degree c @ '' '' @ dec_degree c @ '' '' @ radius)]
                  (chunks_from 0 pids 20) [] st) \<and>
         (\<not> raised_by_collaborator env missing_column \<longrightarrow>
            fst (get_image_list env (Some t) coordinates radius st) \<noteq> Inl missing_column)"
proof (intro conjI impI)
  show "get_data_urls env (Some t) include_auxiliaries st = (Inl missing_column, st)"
    using assms by (simp add: get_data_urls_def)
  show "missing_column =
      AttributeError ''caomPublisherID column missing from query_result argument''"
    by (simp add: missing_column_def)
  show eq: "get_image_list env (Some t) coordinates radius st =
           (case parse_coordinates env coordinates of
              Inl e \<Rightarrow> (Inl e, st)
            | Inr c \<Rightarrow>
                image_list_loop env
                  [(''POS'', ''CIRCLE '' @ ra_degree c @ '' '' @ dec_degree c @ '' '' @ radius)]
                  (chunks_from 0 pids 20) [] st)"
    using assms by (simp add: get_image_list_def chunks_def n_pids_def split: sum.splits)
  assume quiet: "\<not> raised_by_collaborator env missing_column"
  show "fst (get_image_list env (Some t) coordinates radius st) \<noteq> Inl missing_column"
  proof
    assume bad: "fst (get_image_list env (Some t) coordinates radius st) = Inl missing_column"
    show False
    proof (cases "parse_coordinates env coordinates")
      case (Inl e)
      with bad eq have "e = missing_column" by simp
      with Inl quiet show False by (auto simp: raised_by_collaborator_def)
    next
      case (Inr c)
      with bad eq have "fst (image_list_loop env
                  [(''POS'', ''CIRCLE '' @ ra_degree c @ '' '' @ dec_degree c @ '' '' @ radius)]
                  (chunks_from 0 pids 20) [] st) = Inl missing_column" by simp
      from image_list_loop_error [OF this quiet] show False by simp
    qed
  qed
qed

theorem publisher_column_names_differ_witness:
  "get_data_urls cadc_example (Some [(''caomPublisherID'', [''ivo://cadc.nrc.ca/CFHT?obs/p00''])])
       False initial_state =
     (Inl (AttributeError ''caomPublisherID column missing from query_result argument''),
      initial_state) \<and>
   fst (get_image_list cadc_example (Some [(''caomPublisherID'', [''ivo://cadc.nrc.ca/CFHT?obs/p00''])])
          ''08h45m07.5s +54d18m00s'' ''0.1'' initial_state) = Inr [] \<and>
   \<not> raised_by_collaborator cadc_example missing_column"
proof -
  let ?t = "[(''caomPublisherID'', [''ivo://cadc.nrc.ca/CFHT?obs/p00''])]"
  have rows: "table_len ?t \<noteq> 0"
    by (simp add: table_len_def)
  have col: "column ?t ''caomPublisherID'' = Some [''ivo://cadc.nrc.ca/CFHT?obs/p00'']"
    by (simp add: column_def)
  have nocol: "column ?t ''publisherID'' = None"
    by (simp add: column_def)
  have quiet: "\<not> raised_by_collaborator cadc_example missing_column"
    by (simp add: raised_by_collaborator_def cadc_example_def)
  have res: "fst (get_image_list cadc_example (Some ?t) ''08h45m07.5s +54d18m00s'' ''0.1''
      initial_state) = Inr []"
    by code_simp
  show ?thesis
    using publisher_column_names_differ [OF rows col nocol, of cadc_example False initial_state
        "''08h45m07.5s +54d18m00s''" "''0.1''"] quiet res
    by (simp add: missing_column_def)
qed

end
